theory Spec2Isabelle
  imports Complex_Main "HOL-Library.AList" "HOL-Library.Multiset"
begin

section \<open>Documents, expressions and stages\<close>

text \<open>
  The module \<^verbatim>\<open>utils/portfolioPipeline.js\<close> exports two functions.
  \<^verbatim>\<open>createPortfolioPipeline\<close> builds an array of aggregation stage objects;
  \<^verbatim>\<open>createPaginationMetadata\<close> builds a metadata object from three numbers.
  A stage object is plain data, so the pipeline is modelled as a list of values of a
  datatype with one constructor per stage operator the source writes.

  Values of the store are JSON-like. A field that is not there is the missing value,
  written \<open>None\<close> wherever a value is looked up; it is different from \<open>VNull\<close>.
\<close>

datatype val =
    VNull
  | VBool bool
  | VNum int
  | VStr string
  | VArr "val list"
  | VObj "(string \<times> val) list"

type_synonym doc = "(string \<times> val) list"

text \<open>
  Expressions, as far as the source writes them: a field path \<^verbatim>\<open>"$a.b"\<close> (its
  dot-separated components), a variable \<^verbatim>\<open>"$$v"\<close>, \<^verbatim>\<open>{$size: e}\<close>,
  \<^verbatim>\<open>{$eq: [e1, e2]}\<close> and an object literal whose fields are expressions.
\<close>

datatype expr =
    EField "string list"
  | EVar string
  | ESize expr
  | EEq expr expr
  | EObject "(string \<times> expr) list"

text \<open>Accumulators of \<^verbatim>\<open>$group\<close>: \<^verbatim>\<open>{$first: e}\<close> and \<^verbatim>\<open>{$push: e}\<close>.\<close>

datatype accum = First expr | Push expr

text \<open>
  A field of \<^verbatim>\<open>$project\<close>: \<^verbatim>\<open>1\<close> (include), \<^verbatim>\<open>0\<close> (exclude) or an expression.
\<close>

datatype proj = Include | Exclude | Computed expr

text \<open>
  Stages. \<open>Match q\<close> is \<^verbatim>\<open>{$match: q}\<close> for a query document \<open>q\<close> of the caller;
  \<open>MatchExpr e\<close> is \<^verbatim>\<open>{$match: {$expr: e}}\<close>. \<open>Lookup from localField foreignField as\<close>
  is the equality form of \<^verbatim>\<open>$lookup\<close>, \<open>LookupPipeline from let pipeline as\<close> the form
  with variables and a sub-pipeline. \<open>Unwind f preserve\<close> is \<^verbatim>\<open>$unwind\<close> of the
  top-level field path \<^verbatim>\<open>"$f"\<close> with its \<^verbatim>\<open>preserveNullAndEmptyArrays\<close> flag.
  \<open>Sort\<close> keeps the keys in the order the object literal lists them.
\<close>

datatype stage =
    Match val
  | MatchExpr expr
  | Lookup string string string string
  | LookupPipeline string "(string \<times> expr) list" "stage list" string
  | AddFields "(string \<times> expr) list"
  | Unwind string bool
  | Group expr "(string \<times> accum) list"
  | Project "(string \<times> proj) list"
  | Sort "(string \<times> int) list"
  | Skip int
  | Limit int

section \<open>createPortfolioPipeline\<close>

text \<open>
  The \<^verbatim>\<open>options\<close> object. A property that is not set (\<^verbatim>\<open>undefined\<close>) is \<open>None\<close>, and
  the destructuring defaults apply exactly then. \<^verbatim>\<open>sort\<close> is compared with
  \<^verbatim>\<open>===\<close>, so it may be any value; \<^verbatim>\<open>skip\<close> and \<^verbatim>\<open>limit\<close> are integers, as the
  callers pass them.
\<close>

record options =
  sort_opt :: "val option"
  skip_opt :: "int option"
  limit_opt :: "int option"

definition default_to :: "'a \<Rightarrow> 'a option \<Rightarrow> 'a" where
  "default_to d x = (case x of None \<Rightarrow> d | Some v \<Rightarrow> v)"

definition no_options :: options where
  "no_options = \<lparr>sort_opt = None, skip_opt = None, limit_opt = None\<rparr>"

text \<open>The array literal assigned to \<^verbatim>\<open>pipeline\<close>, stage by stage.\<close>

definition matchStage_stage :: "val \<Rightarrow> stage" where
  "matchStage_stage matchStage = Match matchStage"

definition likes_lookup :: stage where
  "likes_lookup = Lookup ''likes'' ''_id'' ''portfolioID'' ''likes''"

definition likeCount_addFields :: stage where
  "likeCount_addFields = AddFields [(''likeCount'', ESize (EField [''likes'']))]"

definition techStack_unwind :: stage where
  "techStack_unwind = Unwind ''techStack'' True"

definition techstacks_lookup :: stage where
  "techstacks_lookup =
     LookupPipeline ''techstacks'' [(''techSkill'', EField [''techStack''])]
       [MatchExpr (EEq (EField [''skill'']) (EVar ''techSkill''))]
       ''techStackInfo''"

definition techStackInfo_unwind :: stage where
  "techStackInfo_unwind = Unwind ''techStackInfo'' True"

definition techStack_push :: expr where
  "techStack_push =
     EObject [(''skill'', EField [''techStackInfo'', ''skill'']),
              (''bgColor'', EField [''techStackInfo'', ''bgColor'']),
              (''textColor'', EField [''techStackInfo'', ''textColor'']),
              (''jobCode'', EField [''techStackInfo'', ''jobCode''])]"

definition portfolio_group :: stage where
  "portfolio_group =
     Group (EField [''_id''])
       [(''title'', First (EField [''title''])),
        (''contents'', First (EField [''contents''])),
        (''view'', First (EField [''view''])),
        (''images'', First (EField [''images''])),
        (''tags'', First (EField [''tags''])),
        (''techStack'', Push techStack_push),
        (''createdAt'', First (EField [''createdAt''])),
        (''thumbnailImage'', First (EField [''thumbnailImage''])),
        (''userID'', First (EField [''userID''])),
        (''likeCount'', First (EField [''likeCount''])),
        (''jobGroup'', First (EField [''jobGroup'']))]"

definition jobgroups_lookup :: stage where
  "jobgroups_lookup =
     LookupPipeline ''jobgroups'' [(''jobGroupId'', EField [''jobGroup''])]
       [MatchExpr (EEq (EField [''_id'']) (EVar ''jobGroupId'')),
        Project [(''_id'', Exclude), (''job'', Include)]]
       ''jobGroupInfo''"

definition jobGroupInfo_unwind :: stage where
  "jobGroupInfo_unwind = Unwind ''jobGroupInfo'' True"

definition final_project :: stage where
  "final_project =
     Project [(''_id'', Include), (''title'', Include), (''contents'', Include),
              (''view'', Include), (''images'', Include), (''tags'', Include),
              (''techStack'', Include), (''createdAt'', Include),
              (''thumbnailImage'', Include), (''userID'', Include),
              (''likeCount'', Include),
              (''jobGroup'', Computed (EField [''jobGroupInfo'', ''job'']))]"

definition pipeline_literal :: "val \<Rightarrow> stage list" where
  "pipeline_literal matchStage =
     [matchStage_stage matchStage,
      likes_lookup,
      likeCount_addFields,
      techStack_unwind,
      techstacks_lookup,
      techStackInfo_unwind,
      portfolio_group,
      jobgroups_lookup,
      jobGroupInfo_unwind,
      final_project]"

definition popular_sort :: stage where
  "popular_sort = Sort [(''likeCount'', - 1), (''createdAt'', - 1)]"

definition latest_sort :: stage where
  "latest_sort = Sort [(''createdAt'', - 1)]"

text \<open>
  The destructuring \<^verbatim>\<open>const { sort = "latest", skip = 0, limit = 15 } = options\<close>,
  with the parameter default \<^verbatim>\<open>options = {}\<close> taken when the argument is omitted
  (\<open>None\<close>).
\<close>

definition sort_of :: "options option \<Rightarrow> val" where
  "sort_of options_arg = default_to (VStr ''latest'') (sort_opt (default_to no_options options_arg))"

definition skip_of :: "options option \<Rightarrow> int" where
  "skip_of options_arg = default_to 0 (skip_opt (default_to no_options options_arg))"

definition limit_of :: "options option \<Rightarrow> int" where
  "limit_of options_arg = default_to 15 (limit_opt (default_to no_options options_arg))"

text \<open>
  The function itself. \<^verbatim>\<open>matchStage\<close> defaults to the empty object when omitted. The
  three \<^verbatim>\<open>push\<close> statements append to the literal in the order they are written.
\<close>

definition createPortfolioPipeline :: "val option \<Rightarrow> options option \<Rightarrow> stage list" where
  "createPortfolioPipeline matchStage_arg options_arg =
     (let matchStage = default_to (VObj []) matchStage_arg;
          sort = sort_of options_arg;
          skip = skip_of options_arg;
          limit = limit_of options_arg;
          pipeline = pipeline_literal matchStage;
          pipeline = pipeline @ [if sort = VStr ''popular'' then popular_sort else latest_sort];
          pipeline = (if skip > 0 then pipeline @ [Skip skip] else pipeline);
          pipeline = (if limit > 0 then pipeline @ [Limit limit] else pipeline)
      in pipeline)"


section \<open>createPaginationMetadata\<close>

text \<open>
  \<^verbatim>\<open>Math.ceil(totalCount / limit)\<close> on integer arguments. The quotient of two integers
  with a non-zero divisor is a number whose ceiling is the mathematical one; a zero
  divisor gives an infinity or NaN, which \<^verbatim>\<open>Math.ceil\<close> returns unchanged. The
  arguments are integers in the range where the number type is exact; the sign of a
  zero result is not modelled.
\<close>

datatype jsnum = Finite int | PosInf | NegInf | NaN



record pagination =
  currentPage :: int
  totalPages :: jsnum
  totalCount :: int
  hasNextPage :: bool
  hasPrevPage :: bool
  limit :: int


section \<open>Executing a pipeline\<close>

text \<open>
  Modelled from the spec: the execution of a pipeline by the document store. The
  source only builds the stage list; the store that runs it is an external collaborator
  and none of its code is in the repository. The stage operators are written here as
  functions on lists of documents, after the specification's stage descriptions and
  glossary (filter; join and cardinality; outer expansion, which keeps a row with an
  absent value for an empty or missing sequence; exact-match resolution; collapse by
  identifier with the first-seen value of each scalar field and one pushed entry per
  row, whose fields are absent when the row has no definition; projection, where an
  unresolved label leaves the field absent; sort; skip; limit). Where the specification
  is silent the operators' documented behaviour is followed: \<^verbatim>\<open>$size\<close> of a value
  that is not an array, a negative \<^verbatim>\<open>$skip\<close>, a non-positive \<^verbatim>\<open>$limit\<close> and a sort
  direction other than 1 and -1 are errors; a join key that is missing counts as null.

  Outside the model: a field path that runs through an array, and the element-wise
  matching of array-valued join keys (the joined keys of this pipeline are
  identifiers); the order in which \<^verbatim>\<open>$group\<close> emits its groups, which the store
  leaves open and which is first occurrence here; the order of objects and of arrays
  among themselves as sort keys.
\<close>

datatype error =
    SizeNotArray
  | UndefinedVariable string
  | BadSortOrder
  | BadSkip
  | BadLimit

type_synonym env = "(string \<times> val option) list"

type_synonym store = "string \<Rightarrow> doc list"

definition get_field :: "string \<Rightarrow> doc \<Rightarrow> val option" where
  "get_field f d = map_of d f"

definition set_field :: "string \<Rightarrow> val \<Rightarrow> doc \<Rightarrow> doc" where
  "set_field f v d = AList.update f v d"

definition del_field :: "string \<Rightarrow> doc \<Rightarrow> doc" where
  "del_field f d = AList.delete f d"

definition or_null :: "val option \<Rightarrow> val" where
  "or_null x = (case x of None \<Rightarrow> VNull | Some v \<Rightarrow> v)"

fun get_path :: "string list \<Rightarrow> val \<Rightarrow> val option" where
  "get_path [] v = Some v"
| "get_path (f # fs) (VObj d) = (case map_of d f of None \<Rightarrow> None | Some v \<Rightarrow> get_path fs v)"
| "get_path (f # fs) _ = None"

text \<open>
  Evaluating an expression on a document gives a value, the missing value, or an error.
  An object literal leaves out the fields whose expression is missing. \<^verbatim>\<open>$eq\<close>
  compares two missing values as equal, and a missing value as different from null.
\<close>

fun eval :: "env \<Rightarrow> doc \<Rightarrow> expr \<Rightarrow> error + val option"
  and eval_fields :: "env \<Rightarrow> doc \<Rightarrow> (string \<times> expr) list \<Rightarrow> error + doc" where
  "eval env d (EField p) = Inr (get_path p (VObj d))"
| "eval env d (EVar n) =
     (case map_of env n of None \<Rightarrow> Inl (UndefinedVariable n) | Some x \<Rightarrow> Inr x)"
| "eval env d (ESize e) =
     (case eval env d e of
        Inl err \<Rightarrow> Inl err
      | Inr x \<Rightarrow> (case x of
           Some (VArr vs) \<Rightarrow> Inr (Some (VNum (int (length vs))))
         | _ \<Rightarrow> Inl SizeNotArray))"
| "eval env d (EEq a b) =
     (case eval env d a of
        Inl err \<Rightarrow> Inl err
      | Inr x \<Rightarrow> (case eval env d b of
           Inl err \<Rightarrow> Inl err
         | Inr y \<Rightarrow> Inr (Some (VBool (x = y)))))"
| "eval env d (EObject fs) =
     (case eval_fields env d fs of Inl err \<Rightarrow> Inl err | Inr ob \<Rightarrow> Inr (Some (VObj ob)))"
| "eval_fields env d [] = Inr []"
| "eval_fields env d ((f, e) # fs) =
     (case eval env d e of
        Inl err \<Rightarrow> Inl err
      | Inr x \<Rightarrow> (case eval_fields env d fs of
           Inl err \<Rightarrow> Inl err
         | Inr ob \<Rightarrow> Inr (case x of None \<Rightarrow> ob | Some v \<Rightarrow> (f, v) # ob)))"

text \<open>The variables of a \<^verbatim>\<open>let\<close>: a variable may hold the missing value.\<close>

fun eval_lets :: "env \<Rightarrow> doc \<Rightarrow> (string \<times> expr) list \<Rightarrow> error + env" where
  "eval_lets env d [] = Inr []"
| "eval_lets env d ((n, e) # ls) =
     (case eval env d e of
        Inl err \<Rightarrow> Inl err
      | Inr x \<Rightarrow> (case eval_lets env d ls of
           Inl err \<Rightarrow> Inl err
         | Inr vars \<Rightarrow> Inr ((n, x) # vars)))"

fun truthy :: "val option \<Rightarrow> bool" where
  "truthy None = False"
| "truthy (Some VNull) = False"
| "truthy (Some (VBool b)) = b"
| "truthy (Some (VNum n)) = (n \<noteq> 0)"
| "truthy (Some _) = True"

fun collect :: "(error + 'a) list \<Rightarrow> error + 'a list" where
  "collect [] = Inr []"
| "collect (x # xs) =
     (case x of
        Inl err \<Rightarrow> Inl err
      | Inr v \<Rightarrow> (case collect xs of Inl err \<Rightarrow> Inl err | Inr vs \<Rightarrow> Inr (v # vs)))"

fun somes :: "'a option list \<Rightarrow> 'a list" where
  "somes [] = []"
| "somes (None # xs) = somes xs"
| "somes (Some v # xs) = v # somes xs"

subsection \<open>The stage operators\<close>

text \<open>\<^verbatim>\<open>$match\<close> with \<^verbatim>\<open>$expr\<close>: the documents on which the expression is truthy.\<close>

definition match_expr :: "env \<Rightarrow> expr \<Rightarrow> doc list \<Rightarrow> error + doc list" where
  "match_expr env e ds =
     (case collect (map (\<lambda>d. eval env d e) ds) of
        Inl err \<Rightarrow> Inl err
      | Inr xs \<Rightarrow> Inr (map fst (filter (\<lambda>(d, x). truthy x) (zip ds xs))))"

text \<open>
  \<^verbatim>\<open>$lookup\<close>, equality form: the foreign documents whose key equals the local key,
  a missing key counting as null on both sides, stored as an array under \<open>as\<close>.
\<close>

definition lookup_doc :: "doc list \<Rightarrow> string \<Rightarrow> string \<Rightarrow> string \<Rightarrow> doc \<Rightarrow> doc" where
  "lookup_doc foreign localField foreignField as d =
     set_field as
       (VArr (map VObj
          (filter (\<lambda>f. or_null (get_field foreignField f) = or_null (get_field localField d))
             foreign))) d"

definition add_fields :: "env \<Rightarrow> (string \<times> expr) list \<Rightarrow> doc \<Rightarrow> error + doc" where
  "add_fields env fs d =
     (case eval_fields env d fs of
        Inl err \<Rightarrow> Inl err
      | Inr ob \<Rightarrow> Inr (fold (\<lambda>(f, v) acc. set_field f v acc) ob d))"

text \<open>
  \<^verbatim>\<open>$unwind\<close>: one document per element of the array. On a missing field, null or the
  empty array the document is dropped, or kept when \<^verbatim>\<open>preserveNullAndEmptyArrays\<close> is
  set (the empty array is then removed from it). A value that is not an array counts as
  a one-element array.
\<close>

definition unwind_doc :: "string \<Rightarrow> bool \<Rightarrow> doc \<Rightarrow> doc list" where
  "unwind_doc f preserve d =
     (case get_field f d of
        None \<Rightarrow> (if preserve then [d] else [])
      | Some VNull \<Rightarrow> (if preserve then [d] else [])
      | Some (VArr []) \<Rightarrow> (if preserve then [del_field f d] else [])
      | Some (VArr (v # vs)) \<Rightarrow> map (\<lambda>x. set_field f x d) (v # vs)
      | Some _ \<Rightarrow> [d])"

text \<open>
  \<^verbatim>\<open>$group\<close>: the rows are grouped by the value of the key expression (missing counts
  as null), groups in the order of their first row, rows inside a group in input order.
  \<^verbatim>\<open>$first\<close> takes the expression at the first row of the group, null when missing;
  \<^verbatim>\<open>$push\<close> collects the expression over the rows of the group.
\<close>

fun group_by :: "('a \<Rightarrow> 'k) \<Rightarrow> 'a list \<Rightarrow> ('k \<times> 'a list) list" where
  "group_by k [] = []"
| "group_by k (x # xs) =
     (k x, x # filter (\<lambda>y. k y = k x) xs) # group_by k (filter (\<lambda>y. k y \<noteq> k x) xs)"

fun accumulate :: "env \<Rightarrow> doc list \<Rightarrow> accum \<Rightarrow> error + val" where
  "accumulate env ds (First e) =
     (case ds of
        [] \<Rightarrow> Inr VNull
      | d # _ \<Rightarrow> (case eval env d e of Inl err \<Rightarrow> Inl err | Inr x \<Rightarrow> Inr (or_null x)))"
| "accumulate env ds (Push e) =
     (case collect (map (\<lambda>d. eval env d e) ds) of
        Inl err \<Rightarrow> Inl err
      | Inr xs \<Rightarrow> Inr (VArr (somes xs)))"

definition group_doc :: "env \<Rightarrow> (string \<times> accum) list \<Rightarrow> val \<times> doc list \<Rightarrow> error + doc" where
  "group_doc env accs g =
     (case collect (map (\<lambda>(f, a). case accumulate env (snd g) a of
                                     Inl err \<Rightarrow> Inl err
                                   | Inr v \<Rightarrow> Inr (f, v)) accs) of
        Inl err \<Rightarrow> Inl err
      | Inr fs \<Rightarrow> Inr ((''_id'', fst g) # fs))"

definition group_key :: "env \<Rightarrow> expr \<Rightarrow> doc \<Rightarrow> val" where
  "group_key env key d = (case eval env d key of Inl err \<Rightarrow> VNull | Inr x \<Rightarrow> or_null x)"

definition group_docs :: "env \<Rightarrow> expr \<Rightarrow> (string \<times> accum) list \<Rightarrow> doc list \<Rightarrow> error + doc list" where
  "group_docs env key accs ds =
     (case collect (map (\<lambda>d. eval env d key) ds) of
        Inl err \<Rightarrow> Inl err
      | Inr ks \<Rightarrow> collect (map (group_doc env accs) (group_by (group_key env key) ds)))"

text \<open>
  \<^verbatim>\<open>$project\<close>: the listed fields, an included one when the document has it, a computed
  one when its expression is not missing; \<^verbatim>\<open>_id\<close> is kept unless it is listed.
\<close>

fun project_fields :: "env \<Rightarrow> doc \<Rightarrow> (string \<times> proj) list \<Rightarrow> error + doc" where
  "project_fields env d [] = Inr []"
| "project_fields env d ((f, p) # ps) =
     (case (case p of
              Include \<Rightarrow> Inr (get_field f d)
            | Exclude \<Rightarrow> Inr None
            | Computed e \<Rightarrow> eval env d e) of
        Inl err \<Rightarrow> Inl err
      | Inr x \<Rightarrow> (case project_fields env d ps of
           Inl err \<Rightarrow> Inl err
         | Inr ob \<Rightarrow> Inr (case x of None \<Rightarrow> ob | Some v \<Rightarrow> (f, v) # ob)))"

definition project_doc :: "env \<Rightarrow> (string \<times> proj) list \<Rightarrow> doc \<Rightarrow> error + doc" where
  "project_doc env ps d =
     (case project_fields env d ps of
        Inl err \<Rightarrow> Inl err
      | Inr ob \<Rightarrow>
          Inr ((case map_of ps ''_id'' of
                  None \<Rightarrow> (case get_field ''_id'' d of None \<Rightarrow> [] | Some v \<Rightarrow> [(''_id'', v)])
                | Some _ \<Rightarrow> []) @ ob))"

text \<open>
  \<^verbatim>\<open>$sort\<close>: a stable sort by the listed keys, each ascending (\<open>1\<close>) or descending
  (\<open>-1\<close>), a missing key counting as null. Values compare by type first (null,
  numbers, strings, objects, arrays, booleans), then inside the type.
\<close>

datatype ordering = LT | EQ | GT

fun flip :: "ordering \<Rightarrow> ordering" where
  "flip LT = GT"
| "flip EQ = EQ"
| "flip GT = LT"

definition cmp_int :: "int \<Rightarrow> int \<Rightarrow> ordering" where
  "cmp_int a b = (if a < b then LT else if b < a then GT else EQ)"

fun cmp_str :: "string \<Rightarrow> string \<Rightarrow> ordering" where
  "cmp_str [] [] = EQ"
| "cmp_str [] (b # bs) = LT"
| "cmp_str (a # as) [] = GT"
| "cmp_str (a # as) (b # bs) =
     (case cmp_int (of_char a) (of_char b) of EQ \<Rightarrow> cmp_str as bs | c \<Rightarrow> c)"

fun type_rank :: "val \<Rightarrow> int" where
  "type_rank VNull = 1"
| "type_rank (VNum _) = 2"
| "type_rank (VStr _) = 3"
| "type_rank (VObj _) = 4"
| "type_rank (VArr _) = 5"
| "type_rank (VBool _) = 6"

fun cmp_same :: "val \<Rightarrow> val \<Rightarrow> ordering" where
  "cmp_same (VNum a) (VNum b) = cmp_int a b"
| "cmp_same (VStr a) (VStr b) = cmp_str a b"
| "cmp_same (VBool a) (VBool b) = cmp_int (if a then 1 else 0) (if b then 1 else 0)"
| "cmp_same _ _ = EQ"

definition cmp_val :: "val \<Rightarrow> val \<Rightarrow> ordering" where
  "cmp_val a b = (case cmp_int (type_rank a) (type_rank b) of EQ \<Rightarrow> cmp_same a b | c \<Rightarrow> c)"

fun cmp_keys :: "(string \<times> int) list \<Rightarrow> doc \<Rightarrow> doc \<Rightarrow> ordering" where
  "cmp_keys [] a b = EQ"
| "cmp_keys ((f, dir) # ks) a b =
     (case cmp_val (or_null (get_field f a)) (or_null (get_field f b)) of
        EQ \<Rightarrow> cmp_keys ks a b
      | c \<Rightarrow> (if dir < 0 then flip c else c))"

fun insert_doc :: "(string \<times> int) list \<Rightarrow> doc \<Rightarrow> doc list \<Rightarrow> doc list" where
  "insert_doc ks d [] = [d]"
| "insert_doc ks d (x # xs) =
     (if cmp_keys ks d x = GT then x # insert_doc ks d xs else d # x # xs)"

definition sort_docs :: "(string \<times> int) list \<Rightarrow> doc list \<Rightarrow> doc list" where
  "sort_docs ks ds = foldr (insert_doc ks) ds []"

subsection \<open>Stages and pipelines\<close>

text \<open>
  Modelled from the spec: the store's run of a stage list, stage by stage in list order.
  \<open>sat q d\<close> says whether document \<open>d\<close> satisfies the caller's query document \<open>q\<close>:
  the query language is the store's, and the source passes \<open>q\<close> through. \<open>db\<close> gives
  the contents of each collection by name. The sub-pipeline of a \<^verbatim>\<open>$lookup\<close> runs on
  the foreign collection, once per input document, with the variables of \<^verbatim>\<open>let\<close>.
\<close>

fun exec_stage :: "(val \<Rightarrow> doc \<Rightarrow> bool) \<Rightarrow> store \<Rightarrow> env \<Rightarrow> stage \<Rightarrow> doc list \<Rightarrow> error + doc list"
  and run :: "(val \<Rightarrow> doc \<Rightarrow> bool) \<Rightarrow> store \<Rightarrow> env \<Rightarrow> stage list \<Rightarrow> doc list \<Rightarrow> error + doc list" where
  "exec_stage sat db env (Match q) ds = Inr (filter (sat q) ds)"
| "exec_stage sat db env (MatchExpr e) ds = match_expr env e ds"
| "exec_stage sat db env (Lookup from localField foreignField as) ds =
     Inr (map (lookup_doc (db from) localField foreignField as) ds)"
| "exec_stage sat db env (LookupPipeline from lets sub as) ds =
     collect (map (\<lambda>d.
        case eval_lets env d lets of
          Inl err \<Rightarrow> Inl err
        | Inr vars \<Rightarrow>
            (case run sat db (vars @ env) sub (db from) of
               Inl err \<Rightarrow> Inl err
             | Inr rows \<Rightarrow> Inr (set_field as (VArr (map VObj rows)) d))) ds)"
| "exec_stage sat db env (AddFields fs) ds = collect (map (add_fields env fs) ds)"
| "exec_stage sat db env (Unwind f preserve) ds = Inr (concat (map (unwind_doc f preserve) ds))"
| "exec_stage sat db env (Group key accs) ds = group_docs env key accs ds"
| "exec_stage sat db env (Project ps) ds = collect (map (project_doc env ps) ds)"
| "exec_stage sat db env (Sort ks) ds =
     (if list_all (\<lambda>(f, dir). dir = 1 \<or> dir = - 1) ks then Inr (sort_docs ks ds)
      else Inl BadSortOrder)"
| "exec_stage sat db env (Skip n) ds = (if n < 0 then Inl BadSkip else Inr (drop (nat n) ds))"
| "exec_stage sat db env (Limit n) ds = (if n \<le> 0 then Inl BadLimit else Inr (take (nat n) ds))"
| "run sat db env [] ds = Inr ds"
| "run sat db env (s # ss) ds =
     (case exec_stage sat db env s ds of Inl err \<Rightarrow> Inl err | Inr ds' \<Rightarrow> run sat db env ss ds')"

text \<open>Running a pipeline on a collection, as \<^verbatim>\<open>Model.aggregate(pipeline)\<close> does.\<close>

definition aggregate :: "(val \<Rightarrow> doc \<Rightarrow> bool) \<Rightarrow> store \<Rightarrow> stage list \<Rightarrow> doc list \<Rightarrow> error + doc list" where
  "aggregate sat db pipeline ds = run sat db [] pipeline ds"

section \<open>What the pipeline computes\<close>

text \<open>
  The rows the pipeline yields are described directly from the collections, one
  portfolio at a time, and these descriptions are then proved equal to the result of
  running the stage list. A document's identifier is its \<open>_id\<close>, null when missing.
\<close>

definition pid :: "doc \<Rightarrow> val" where
  "pid p = or_null (get_field ''_id'' p)"

text \<open>The Like records of a portfolio, and their number.\<close>

definition liked :: "store \<Rightarrow> doc \<Rightarrow> doc list" where
  "liked db p =
     filter (\<lambda>l. or_null (get_field ''portfolioID'' l) = or_null (get_field ''_id'' p))
       (db ''likes'')"

definition like_count :: "store \<Rightarrow> doc \<Rightarrow> int" where
  "like_count db p = int (length (liked db p))"

text \<open>
  The values an outer expansion leaves in the expanded field, in order: the elements of
  a non-empty array; one missing value for a missing field or an empty array; the value
  itself for null or a value that is not an array.
\<close>

fun unwound :: "val option \<Rightarrow> val option list" where
  "unwound None = [None]"
| "unwound (Some VNull) = [Some VNull]"
| "unwound (Some (VArr [])) = [None]"
| "unwound (Some (VArr (v # vs))) = map Some (v # vs)"
| "unwound (Some x) = [Some x]"

text \<open>The TechStackDefinitions whose skill name equals a reference.\<close>

definition definitions_for :: "store \<Rightarrow> val option \<Rightarrow> doc list" where
  "definitions_for db x = filter (\<lambda>t. get_field ''skill'' t = x) (db ''techstacks'')"

definition sub_field :: "string \<Rightarrow> val option \<Rightarrow> val option" where
  "sub_field f x = (case x of Some (VObj t) \<Rightarrow> get_field f t | _ \<Rightarrow> None)"

definition present :: "string \<Rightarrow> val option \<Rightarrow> doc" where
  "present f x = (case x of None \<Rightarrow> [] | Some v \<Rightarrow> [(f, v)])"

text \<open>
  The tech-stack entry of a row: the four fields of the row's resolved definition, each
  left out when the definition does not have it or when there is no definition.
\<close>

definition tech_entry :: "val option \<Rightarrow> val" where
  "tech_entry x =
     VObj (present ''skill'' (sub_field ''skill'' x) @ present ''bgColor'' (sub_field ''bgColor'' x)
           @ present ''textColor'' (sub_field ''textColor'' x)
           @ present ''jobCode'' (sub_field ''jobCode'' x))"

definition resolved :: "store \<Rightarrow> val option \<Rightarrow> val option list" where
  "resolved db x = unwound (Some (VArr (map VObj (definitions_for db x))))"

definition techStack_entries :: "store \<Rightarrow> doc \<Rightarrow> val list" where
  "techStack_entries db p =
     map tech_entry (concat (map (resolved db) (unwound (get_field ''techStack'' p))))"

text \<open>The rows of one portfolio after each group of stages.\<close>

definition with_likes :: "store \<Rightarrow> doc \<Rightarrow> doc" where
  "with_likes db p =
     set_field ''likeCount'' (VNum (like_count db p))
       (lookup_doc (db ''likes'') ''_id'' ''portfolioID'' ''likes'' p)"

definition with_definitions :: "store \<Rightarrow> doc \<Rightarrow> doc" where
  "with_definitions db r =
     set_field ''techStackInfo'' (VArr (map VObj (definitions_for db (get_field ''techStack'' r)))) r"

definition expanded :: "store \<Rightarrow> doc \<Rightarrow> doc list" where
  "expanded db p =
     concat (map (\<lambda>r. unwind_doc ''techStackInfo'' True (with_definitions db r))
               (unwind_doc ''techStack'' True (with_likes db p)))"

definition first_value :: "string \<Rightarrow> doc \<Rightarrow> string \<times> val" where
  "first_value f p = (f, or_null (get_field f p))"

definition grouped :: "store \<Rightarrow> doc \<Rightarrow> doc" where
  "grouped db p =
     [first_value ''_id'' p,
      first_value ''title'' p,
      first_value ''contents'' p,
      first_value ''view'' p,
      first_value ''images'' p,
      first_value ''tags'' p,
      (''techStack'', VArr (techStack_entries db p)),
      first_value ''createdAt'' p,
      first_value ''thumbnailImage'' p,
      first_value ''userID'' p,
      (''likeCount'', VNum (like_count db p)),
      first_value ''jobGroup'' p]"

text \<open>The JobGroupDefinitions a portfolio's \<open>jobGroup\<close> refers to, and their labels.\<close>

definition job_matches :: "store \<Rightarrow> doc \<Rightarrow> doc list" where
  "job_matches db p =
     filter (\<lambda>j. get_field ''_id'' j = Some (or_null (get_field ''jobGroup'' p))) (db ''jobgroups'')"

definition job_labels :: "store \<Rightarrow> doc \<Rightarrow> val option list" where
  "job_labels db p =
     (if job_matches db p = [] then [None] else map (get_field ''job'') (job_matches db p))"

definition job_label :: "store \<Rightarrow> doc \<Rightarrow> val option" where
  "job_label db p = (case job_matches db p of [] \<Rightarrow> None | j # js \<Rightarrow> get_field ''job'' j)"

definition with_job :: "store \<Rightarrow> doc \<Rightarrow> doc" where
  "with_job db p =
     grouped db p @ [(''jobGroupInfo'',
        VArr (map (\<lambda>j. VObj (present ''job'' (get_field ''job'' j))) (job_matches db p)))]"

text \<open>
  The view records of a portfolio: the scalar fields, the tech-stack entries and the
  like count, then \<open>jobGroup\<close> when a label was resolved. There is one per matching
  JobGroupDefinition, and one without \<open>jobGroup\<close> when none matches; with unique
  job-group identifiers that is exactly one, \<open>the_view\<close>.
\<close>

definition view_base :: "store \<Rightarrow> doc \<Rightarrow> doc" where
  "view_base db p =
     [first_value ''_id'' p,
      first_value ''title'' p,
      first_value ''contents'' p,
      first_value ''view'' p,
      first_value ''images'' p,
      first_value ''tags'' p,
      (''techStack'', VArr (techStack_entries db p)),
      first_value ''createdAt'' p,
      first_value ''thumbnailImage'' p,
      first_value ''userID'' p,
      (''likeCount'', VNum (like_count db p))]"

definition view_rows :: "store \<Rightarrow> doc \<Rightarrow> doc list" where
  "view_rows db p = map (\<lambda>lab. view_base db p @ present ''jobGroup'' lab) (job_labels db p)"

definition the_view :: "store \<Rightarrow> doc \<Rightarrow> doc" where
  "the_view db p = view_base db p @ present ''jobGroup'' (job_label db p)"

definition views :: "(val \<Rightarrow> doc \<Rightarrow> bool) \<Rightarrow> store \<Rightarrow> val option \<Rightarrow> doc list \<Rightarrow> doc list" where
  "views sat db m ps = concat (map (view_rows db) (filter (sat (default_to (VObj []) m)) ps))"

text \<open>A portfolio passes the filter stage.\<close>

definition accepts :: "(val \<Rightarrow> doc \<Rightarrow> bool) \<Rightarrow> val option \<Rightarrow> doc \<Rightarrow> bool" where
  "accepts sat m p \<longleftrightarrow> sat (default_to (VObj []) m) p"

text \<open>The sort keys and the page the options select.\<close>

definition sort_keys :: "options option \<Rightarrow> (string \<times> int) list" where
  "sort_keys opts =
     (if sort_of opts = VStr ''popular'' then [(''likeCount'', - 1), (''createdAt'', - 1)]
      else [(''createdAt'', - 1)])"

definition paged :: "options option \<Rightarrow> doc list \<Rightarrow> doc list" where
  "paged opts rows =
     (let skipped = (if 0 < skip_of opts then drop (nat (skip_of opts)) rows else rows)
      in if 0 < limit_of opts then take (nat (limit_of opts)) skipped else skipped)"

text \<open>
  Identifiers are unique inside a collection: the store guarantees it. \<open>untruncated\<close>
  says that the options cut no row off a result of at most as many rows as there are
  portfolios: nothing is skipped, and the limit, if any, is not below that number.
\<close>

definition unique_job_ids :: "store \<Rightarrow> bool" where
  "unique_job_ids db \<longleftrightarrow> distinct (map (get_field ''_id'') (db ''jobgroups''))"

definition untruncated :: "options option \<Rightarrow> doc list \<Rightarrow> bool" where
  "untruncated opts ps \<longleftrightarrow>
     skip_of opts \<le> 0 \<and> (limit_of opts \<le> 0 \<or> int (length ps) \<le> limit_of opts)"







subsection \<open>A small store\<close>

text \<open>
  One TechStackDefinition, for \<open>go\<close>; two Likes of portfolio 1; one JobGroupDefinition;
  a portfolio with the skills \<open>go\<close> and \<open>rust\<close>, and one with no skills whose job
  group does not resolve. \<open>sat_all\<close> is the filter that accepts every portfolio.
\<close>

definition sat_all :: "val \<Rightarrow> doc \<Rightarrow> bool" where
  "sat_all q d = True"

definition go_definition :: doc where
  "go_definition =
     [(''_id'', VNum 50), (''skill'', VStr ''go''), (''bgColor'', VStr ''#00ADD8''),
      (''textColor'', VStr ''#FFFFFF''), (''jobCode'', VStr ''BE'')]"

definition first_like :: doc where
  "first_like = [(''_id'', VNum 100), (''portfolioID'', VNum 1)]"

definition second_like :: doc where
  "second_like = [(''_id'', VNum 101), (''portfolioID'', VNum 1)]"

definition backend_group :: doc where
  "backend_group = [(''_id'', VNum 7), (''job'', VStr ''Backend'')]"

definition example_store :: store where
  "example_store name =
     (if name = ''techstacks'' then [go_definition]
      else if name = ''likes'' then [first_like, second_like]
      else if name = ''jobgroups'' then [backend_group]
      else [])"

definition rust_row :: doc where
  "rust_row = [(''_id'', VNum 1), (''techStack'', VStr ''rust'')]"

definition example_portfolio :: doc where
  "example_portfolio =
     [(''_id'', VNum 1), (''title'', VStr ''Shop''),
      (''techStack'', VArr [VStr ''go'', VStr ''rust'']),
      (''createdAt'', VNum 20), (''jobGroup'', VNum 7)]"

definition bare_portfolio :: doc where
  "bare_portfolio =
     [(''_id'', VNum 2), (''title'', VStr ''Blog''), (''techStack'', VArr []),
      (''createdAt'', VNum 30), (''jobGroup'', VNum 9)]"

definition go_entry :: val where
  "go_entry =
     VObj [(''skill'', VStr ''go''), (''bgColor'', VStr ''#00ADD8''),
           (''textColor'', VStr ''#FFFFFF''), (''jobCode'', VStr ''BE'')]"

definition example_view :: doc where
  "example_view =
     [(''_id'', VNum 1), (''title'', VStr ''Shop''), (''contents'', VNull), (''view'', VNull),
      (''images'', VNull), (''tags'', VNull), (''techStack'', VArr [go_entry, VObj []]),
      (''createdAt'', VNum 20), (''thumbnailImage'', VNull), (''userID'', VNull),
      (''likeCount'', VNum 2), (''jobGroup'', VStr ''Backend'')]"


section \<open>Properties of the stage list\<close>

lemmas stage_defs = matchStage_stage_def likes_lookup_def likeCount_addFields_def
  techStack_unwind_def techstacks_lookup_def techStackInfo_unwind_def portfolio_group_def
  jobgroups_lookup_def jobGroupInfo_unwind_def final_project_def popular_sort_def latest_sort_def

lemma pipeline_shape:
  "createPortfolioPipeline m opts =
     pipeline_literal (default_to (VObj []) m)
     @ [if sort_of opts = VStr ''popular'' then popular_sort else latest_sort]
     @ (if 0 < skip_of opts then [Skip (skip_of opts)] else [])
     @ (if 0 < limit_of opts then [Limit (limit_of opts)] else [])"
  by (simp add: createPortfolioPipeline_def Let_def)

lemma options_defaults:
  "sort_of None = VStr ''latest''" "skip_of None = 0" "limit_of None = 15"
  "sort_of (Some no_options) = VStr ''latest''" "skip_of (Some no_options) = 0"
  "limit_of (Some no_options) = 15"
  by (simp_all add: sort_of_def skip_of_def limit_of_def default_to_def no_options_def)

lemma options_given:
  "sort_of (Some \<lparr>sort_opt = Some a, skip_opt = b, limit_opt = c\<rparr>) = a"
  "skip_of (Some \<lparr>sort_opt = a', skip_opt = Some b', limit_opt = c\<rparr>) = b'"
  "limit_of (Some \<lparr>sort_opt = a', skip_opt = b, limit_opt = Some c'\<rparr>) = c'"
  by (simp_all add: sort_of_def skip_of_def limit_of_def default_to_def)



text \<open>
  C5. The stage list is the ten stages of the literal and the sort stage, eleven in all,
  then a skip stage exactly when \<open>skip > 0\<close>, then a limit stage, last, exactly when
  \<open>limit > 0\<close>. With the options omitted \<open>skip\<close> is 0, so there is no skip stage, and
  \<open>limit\<close> is 15.
\<close>

theorem pipeline_optional_stages:
  "createPortfolioPipeline m opts =
     (pipeline_literal (default_to (VObj []) m)
      @ [if sort_of opts = VStr ''popular'' then popular_sort else latest_sort])
     @ (if 0 < skip_of opts then [Skip (skip_of opts)] else [])
     @ (if 0 < limit_of opts then [Limit (limit_of opts)] else [])
   \<and> length (pipeline_literal (default_to (VObj []) m)
        @ [if sort_of opts = VStr ''popular'' then popular_sort else latest_sort]) = 11
   \<and> ((\<exists>n. Skip n \<in> set (createPortfolioPipeline m opts)) \<longleftrightarrow> 0 < skip_of opts)
   \<and> ((\<exists>n. Limit n \<in> set (createPortfolioPipeline m opts)) \<longleftrightarrow> 0 < limit_of opts)
   \<and> skip_of None = 0 \<and> limit_of None = 15
   \<and> skip_of (Some no_options) = 0 \<and> limit_of (Some no_options) = 15
   \<and> createPortfolioPipeline m None =
       pipeline_literal (default_to (VObj []) m) @ [latest_sort, Limit 15]"
proof -
  have a: "length (pipeline_literal (default_to (VObj []) m)
        @ [if sort_of opts = VStr ''popular'' then popular_sort else latest_sort]) = 11"
    by (simp add: pipeline_literal_def)
  have b: "(\<exists>n. Skip n \<in> set (createPortfolioPipeline m opts)) \<longleftrightarrow> 0 < skip_of opts"
    by (auto simp add: pipeline_shape pipeline_literal_def stage_defs)
  have c: "(\<exists>n. Limit n \<in> set (createPortfolioPipeline m opts)) \<longleftrightarrow> 0 < limit_of opts"
    by (auto simp add: pipeline_shape pipeline_literal_def stage_defs)
  have d: "createPortfolioPipeline m None =
       pipeline_literal (default_to (VObj []) m) @ [latest_sort, Limit 15]"
    by (simp add: pipeline_shape options_defaults)
  show ?thesis using a b c d pipeline_shape [of m opts] options_defaults by simp
qed

theorem pipeline_optional_stages_witness:
  "createPortfolioPipeline (Some (VObj [(''userID'', VStr ''u1'')]))
      (Some \<lparr>sort_opt = Some (VStr ''popular''), skip_opt = Some 30, limit_opt = Some 0\<rparr>) =
     pipeline_literal (VObj [(''userID'', VStr ''u1'')]) @ [popular_sort, Skip 30]"
  using pipeline_optional_stages [of "Some (VObj [(''userID'', VStr ''u1'')])"
      "Some \<lparr>sort_opt = Some (VStr ''popular''), skip_opt = Some 30, limit_opt = Some 0\<rparr>"]
  by (simp add: options_given default_to_def)





section \<open>Properties of the pagination metadata\<close>





section \<open>The pipeline run on a collection\<close>

text \<open>
  The stage list is run group of stages by group of stages; each lemma gives the rows
  after the group in terms of the descriptions above.
\<close>

lemma get_set [simp]: "get_field f (set_field g v d) = (if f = g then Some v else get_field f d)"
  by (simp add: get_field_def set_field_def update_conv')

lemma get_del [simp]: "get_field f (del_field g d) = (if f = g then None else get_field f d)"
  by (simp add: get_field_def del_field_def delete_conv')

lemma get_path1 [simp]: "get_path [f] (VObj d) = get_field f d"
  by (simp add: get_field_def split: option.splits)

lemma get_path2 [simp]: "get_path [f, g] (VObj d) = sub_field g (get_field f d)"
proof (cases "map_of d f")
  case None
  then show ?thesis by (simp add: get_field_def sub_field_def)
next
  case (Some v)
  then show ?thesis by (cases v) (simp_all add: get_field_def sub_field_def split: option.splits)
qed

declare get_path.simps [simp del]

lemma collect_map_Inr: "(\<And>x. x \<in> set xs \<Longrightarrow> f x = Inr (g x)) \<Longrightarrow> collect (map f xs) = Inr (map g xs)"
  by (induction xs) simp_all

lemma somes_map_Some [simp]: "somes (map Some xs) = xs"
  by (induction xs) simp_all

lemma filter_zip_map: "map fst (filter (\<lambda>(d, x). P x) (zip ds (map g ds))) = filter (\<lambda>d. P (g d)) ds"
  by (induction ds) simp_all

lemma match_expr_eq_var:
  assumes "map_of env v = Some x"
  shows "match_expr env (EEq (EField [f]) (EVar v)) ds = Inr (filter (\<lambda>d. get_field f d = x) ds)"
proof -
  have "collect (map (\<lambda>d. eval env d (EEq (EField [f]) (EVar v))) ds)
          = Inr (map (\<lambda>d. Some (VBool (get_field f d = x))) ds)"
    by (rule collect_map_Inr) (simp add: assms)
  then show ?thesis
    by (simp add: match_expr_def filter_zip_map [where P = truthy])
qed

lemma unwind_nonempty: "unwind_doc f True d \<noteq> []"
  by (simp add: unwind_doc_def split: option.splits val.splits list.splits)

lemma unwind_other: "r \<in> set (unwind_doc f b d) \<Longrightarrow> g \<noteq> f \<Longrightarrow> get_field g r = get_field g d"
  by (auto simp add: unwind_doc_def split: option.splits val.splits list.splits if_splits)

lemma unwind_field: "map (get_field f) (unwind_doc f True d) = unwound (get_field f d)"
  by (auto simp add: unwind_doc_def split: option.splits val.splits list.splits)

lemma group_by_concat:
  assumes "distinct (map k ps)"
    and "\<And>p. p \<in> set ps \<Longrightarrow> rows p \<noteq> []"
    and "\<And>p r. p \<in> set ps \<Longrightarrow> r \<in> set (rows p) \<Longrightarrow> kf r = k p"
  shows "group_by kf (concat (map rows ps)) = map (\<lambda>p. (k p, rows p)) ps"
  using assms
proof (induction ps)
  case Nil
  then show ?case by simp
next
  case (Cons p ps)
  obtain r rs where rr: "rows p = r # rs" using Cons.prems(2) [of p] by (cases "rows p") auto
  have kr: "kf r = k p" using Cons.prems(3) [of p r] rr by simp
  have same: "filter (\<lambda>y. kf y = k p) rs = rs" "filter (\<lambda>y. kf y \<noteq> k p) rs = []"
    using Cons.prems(3) [of p] rr by (simp_all add: filter_id_conv filter_empty_conv)
  have other: "kf y \<noteq> k p" if "y \<in> set (concat (map rows ps))" for y
  proof -
    from that obtain p' where p': "p' \<in> set ps" "y \<in> set (rows p')" by auto
    have "kf y = k p'" using Cons.prems(3) [of p' y] p' by simp
    moreover have "k p' \<noteq> k p" using Cons.prems(1) p'(1) by (metis distinct.simps(2) image_eqI list.simps(9) set_map)
    ultimately show ?thesis by simp
  qed
  have rest: "filter (\<lambda>y. kf y = k p) (concat (map rows ps)) = []"
    "filter (\<lambda>y. kf y \<noteq> k p) (concat (map rows ps)) = concat (map rows ps)"
    using other by (simp_all add: filter_id_conv filter_empty_conv)
  have ih: "group_by kf (concat (map rows ps)) = map (\<lambda>p. (k p, rows p)) ps"
    using Cons.IH Cons.prems by simp
  show ?case by (simp add: rr kr same rest ih)
qed

lemma concat_map_concat:
  "concat (map f (concat (map v ds))) = concat (map (\<lambda>p. concat (map f (v p))) ds)"
  by (induction ds) simp_all

lemma run_likes:
  "run sat db [] [likes_lookup, likeCount_addFields] ds = Inr (map (with_likes db) ds)"
proof -
  have one: "add_fields [] [(''likeCount'', ESize (EField [''likes'']))]
          (lookup_doc (db ''likes'') ''_id'' ''portfolioID'' ''likes'' d) = Inr (with_likes db d)" for d
    by (simp add: add_fields_def lookup_doc_def with_likes_def like_count_def liked_def)
  have "collect (map (\<lambda>d. add_fields [] [(''likeCount'', ESize (EField [''likes'']))]
          (lookup_doc (db ''likes'') ''_id'' ''portfolioID'' ''likes'' d)) ds)
        = Inr (map (with_likes db) ds)"
    by (rule collect_map_Inr) (rule one)
  then show ?thesis by (simp add: likes_lookup_def likeCount_addFields_def o_def)
qed

lemma lookup_definitions:
  "(case eval_lets [] r [(''techSkill'', EField [''techStack''])] of
      Inl err \<Rightarrow> Inl err
    | Inr vars \<Rightarrow>
        (case run sat db (vars @ []) [MatchExpr (EEq (EField [''skill'']) (EVar ''techSkill''))]
                (db ''techstacks'') of
           Inl err \<Rightarrow> Inl err
         | Inr rows \<Rightarrow> Inr (set_field ''techStackInfo'' (VArr (map VObj rows)) r)))
   = Inr (with_definitions db r)"
  by (simp add: match_expr_eq_var with_definitions_def definitions_for_def)

lemma run_expand:
  "run sat db [] [techStack_unwind, techstacks_lookup, techStackInfo_unwind]
     (map (with_likes db) ds) = Inr (concat (map (expanded db) ds))"
proof -
  let ?rows = "concat (map (unwind_doc ''techStack'' True) (map (with_likes db) ds))"
  have a: "exec_stage sat db [] techStack_unwind (map (with_likes db) ds) = Inr ?rows"
    by (simp add: techStack_unwind_def)
  have b: "exec_stage sat db [] techstacks_lookup ?rows = Inr (map (with_definitions db) ?rows)"
    unfolding techstacks_lookup_def exec_stage.simps
    by (rule collect_map_Inr) (rule lookup_definitions)
  have c: "exec_stage sat db [] techStackInfo_unwind (map (with_definitions db) ?rows)
             = Inr (concat (map (expanded db) ds))"
  proof -
    have "expanded db = (\<lambda>p. concat (map (\<lambda>r. unwind_doc ''techStackInfo'' True (with_definitions db r))
               (unwind_doc ''techStack'' True (with_likes db p))))"
      by (rule ext) (simp add: expanded_def)
    then show ?thesis
      by (simp add: techStackInfo_unwind_def o_def concat_map_concat)
  qed
  show ?thesis by (simp only: run.simps a b c sum.case)
qed

lemma with_likes_other:
  "f \<noteq> ''likes'' \<Longrightarrow> f \<noteq> ''likeCount'' \<Longrightarrow> get_field f (with_likes db p) = get_field f p"
  by (simp add: with_likes_def lookup_doc_def)

lemma with_likes_count: "get_field ''likeCount'' (with_likes db p) = Some (VNum (like_count db p))"
  by (simp add: with_likes_def)

lemma expanded_nonempty: "expanded db p \<noteq> []"
proof -
  obtain r rs where "unwind_doc ''techStack'' True (with_likes db p) = r # rs"
    using unwind_nonempty [of "''techStack''" "with_likes db p"] by (cases "unwind_doc ''techStack'' True (with_likes db p)") auto
  then show ?thesis by (simp add: expanded_def unwind_nonempty)
qed

lemma expanded_other:
  assumes "r \<in> set (expanded db p)"
    and "f \<noteq> ''likes''" "f \<noteq> ''likeCount''" "f \<noteq> ''techStack''" "f \<noteq> ''techStackInfo''"
  shows "get_field f r = get_field f p"
proof -
  from assms(1) obtain r3 where r3: "r3 \<in> set (unwind_doc ''techStack'' True (with_likes db p))"
      and r: "r \<in> set (unwind_doc ''techStackInfo'' True (with_definitions db r3))"
    by (auto simp add: expanded_def)
  have "get_field f r = get_field f (with_definitions db r3)"
    using unwind_other [OF r assms(5)] .
  also have "\<dots> = get_field f r3" using assms(5) by (simp add: with_definitions_def)
  also have "\<dots> = get_field f (with_likes db p)" using unwind_other [OF r3 assms(4)] .
  also have "\<dots> = get_field f p" using assms(2,3) by (rule with_likes_other)
  finally show ?thesis .
qed

lemma expanded_likeCount:
  assumes "r \<in> set (expanded db p)"
  shows "get_field ''likeCount'' r = Some (VNum (like_count db p))"
proof -
  from assms obtain r3 where r3: "r3 \<in> set (unwind_doc ''techStack'' True (with_likes db p))"
      and r: "r \<in> set (unwind_doc ''techStackInfo'' True (with_definitions db r3))"
    by (auto simp add: expanded_def)
  have "get_field ''likeCount'' r = get_field ''likeCount'' (with_definitions db r3)"
    using unwind_other [OF r] by simp
  also have "\<dots> = get_field ''likeCount'' r3" by (simp add: with_definitions_def)
  also have "\<dots> = get_field ''likeCount'' (with_likes db p)" using unwind_other [OF r3] by simp
  finally show ?thesis by (simp add: with_likes_count)
qed

lemma expanded_info:
  "map (get_field ''techStackInfo'') (expanded db p)
     = concat (map (resolved db) (unwound (get_field ''techStack'' p)))"
proof -
  have one: "map (get_field ''techStackInfo'') (unwind_doc ''techStackInfo'' True (with_definitions db r))
          = resolved db (get_field ''techStack'' r)" for r
    by (simp add: unwind_field with_definitions_def resolved_def)
  have "map (get_field ''techStackInfo'') (expanded db p)
          = concat (map (\<lambda>r. resolved db (get_field ''techStack'' r))
              (unwind_doc ''techStack'' True (with_likes db p)))"
    by (simp add: expanded_def map_concat o_def one)
  also have "\<dots> = concat (map (resolved db)
              (map (get_field ''techStack'') (unwind_doc ''techStack'' True (with_likes db p))))"
    by (simp add: o_def)
  also have "\<dots> = concat (map (resolved db) (unwound (get_field ''techStack'' p)))"
    by (simp only: unwind_field with_likes_other [of "''techStack''"] ) (simp add: with_likes_other)
  finally show ?thesis .
qed

lemma accumulate_first:
  "rows \<noteq> [] \<Longrightarrow> accumulate env rows (First (EField [f])) = Inr (or_null (get_field f (hd rows)))"
  by (cases rows) simp_all

lemma eval_push: "eval env r techStack_push = Inr (Some (tech_entry (get_field ''techStackInfo'' r)))"
  by (simp add: techStack_push_def tech_entry_def present_def split: option.splits)

lemma somes_Some: "somes (map (\<lambda>x. Some (f x)) xs) = map f xs"
  by (induction xs) simp_all

lemma accumulate_push:
  "accumulate env rows (Push techStack_push)
     = Inr (VArr (map tech_entry (map (get_field ''techStackInfo'') rows)))"
proof -
  have "collect (map (\<lambda>d. eval env d techStack_push) rows)
          = Inr (map (\<lambda>r. Some (tech_entry (get_field ''techStackInfo'' r))) rows)"
    by (rule collect_map_Inr) (rule eval_push)
  then show ?thesis by (simp add: o_def somes_Some)
qed

lemma group_doc_expanded:
  "group_doc []
     [(''title'', First (EField [''title''])),
      (''contents'', First (EField [''contents''])),
      (''view'', First (EField [''view''])),
      (''images'', First (EField [''images''])),
      (''tags'', First (EField [''tags''])),
      (''techStack'', Push techStack_push),
      (''createdAt'', First (EField [''createdAt''])),
      (''thumbnailImage'', First (EField [''thumbnailImage''])),
      (''userID'', First (EField [''userID''])),
      (''likeCount'', First (EField [''likeCount''])),
      (''jobGroup'', First (EField [''jobGroup'']))]
     (or_null (get_field ''_id'' p), expanded db p) = Inr (grouped db p)"
proof -
  have ne: "expanded db p \<noteq> []" by (rule expanded_nonempty)
  then have hd_in: "hd (expanded db p) \<in> set (expanded db p)" by simp
  have f: "get_field f (hd (expanded db p)) = get_field f p"
    if "f \<noteq> ''likes''" "f \<noteq> ''likeCount''" "f \<noteq> ''techStack''" "f \<noteq> ''techStackInfo''" for f
    using expanded_other [OF hd_in that] .
  have l: "get_field ''likeCount'' (hd (expanded db p)) = Some (VNum (like_count db p))"
    using expanded_likeCount [OF hd_in] .
  show ?thesis
    by (simp add: group_doc_def accumulate_first [OF ne] accumulate_push expanded_info f l
        grouped_def first_value_def techStack_entries_def or_null_def del: accumulate.simps)
qed

lemma run_group:
  assumes "distinct (map (\<lambda>p. or_null (get_field ''_id'' p)) ds)"
  shows "exec_stage sat db [] portfolio_group (concat (map (expanded db) ds))
           = Inr (map (grouped db) ds)"
proof -
  let ?rows = "concat (map (expanded db) ds)"
  have keys: "collect (map (\<lambda>d. eval [] d (EField [''_id''])) ?rows)
                = Inr (map (get_field ''_id'') ?rows)"
    by (rule collect_map_Inr) simp
  have key: "group_key [] (EField [''_id'']) r = or_null (get_field ''_id'' p)"
    if "r \<in> set (expanded db p)" for r p
    using expanded_other [OF that, of "''_id''"] by (simp add: group_key_def)
  have groups: "group_by (group_key [] (EField [''_id''])) ?rows
                  = map (\<lambda>p. (or_null (get_field ''_id'' p), expanded db p)) ds"
    by (rule group_by_concat [OF assms]) (simp_all add: expanded_nonempty key)
  show ?thesis
    unfolding portfolio_group_def exec_stage.simps group_docs_def keys groups sum.case map_map o_def
    by (rule collect_map_Inr) (rule group_doc_expanded)
qed

lemma collect_append:
  "collect (xs @ ys) =
     (case collect xs of
        Inl err \<Rightarrow> Inl err
      | Inr a \<Rightarrow> (case collect ys of Inl err \<Rightarrow> Inl err | Inr b \<Rightarrow> Inr (a @ b)))"
  by (induction xs) (simp_all split: sum.splits)

lemma collect_map_concat:
  "(\<And>p. p \<in> set ds \<Longrightarrow> collect (map f (rows p)) = Inr (out p))
     \<Longrightarrow> collect (map f (concat (map rows ds))) = Inr (concat (map out ds))"
  by (induction ds) (simp_all add: collect_append)

lemma project_job: "project_doc env [(''_id'', Exclude), (''job'', Include)] j = Inr (present ''job'' (get_field ''job'' j))"
  by (simp add: project_doc_def present_def split: option.splits)

lemma grouped_jobGroup: "get_field ''jobGroup'' (grouped db p) = Some (or_null (get_field ''jobGroup'' p))"
  by (simp add: grouped_def first_value_def get_field_def)

lemma lookup_job:
  "(case eval_lets [] (grouped db p) [(''jobGroupId'', EField [''jobGroup''])] of
      Inl err \<Rightarrow> Inl err
    | Inr vars \<Rightarrow>
        (case run sat db (vars @ [])
                [MatchExpr (EEq (EField [''_id'']) (EVar ''jobGroupId'')),
                 Project [(''_id'', Exclude), (''job'', Include)]]
                (db ''jobgroups'') of
           Inl err \<Rightarrow> Inl err
         | Inr rows \<Rightarrow> Inr (set_field ''jobGroupInfo'' (VArr (map VObj rows)) (grouped db p))))
   = Inr (with_job db p)"
proof -
  have m: "match_expr [(''jobGroupId'', Some (or_null (get_field ''jobGroup'' p)))]
             (EEq (EField [''_id'']) (EVar ''jobGroupId'')) (db ''jobgroups'')
           = Inr (job_matches db p)"
    by (simp add: match_expr_eq_var job_matches_def)
  have pr: "collect (map (project_doc [(''jobGroupId'', Some (or_null (get_field ''jobGroup'' p)))]
                 [(''_id'', Exclude), (''job'', Include)]) (job_matches db p))
            = Inr (map (\<lambda>j. present ''job'' (get_field ''job'' j)) (job_matches db p))"
    by (rule collect_map_Inr) (rule project_job)
  have st: "set_field ''jobGroupInfo'' x (grouped db p) = grouped db p @ [(''jobGroupInfo'', x)]" for x
    by (simp add: set_field_def grouped_def first_value_def)
  show ?thesis
    by (simp add: grouped_jobGroup m pr st with_job_def o_def)
qed

lemma unwind_job:
  "unwind_doc ''jobGroupInfo'' True (with_job db p) =
     (if job_matches db p = [] then [grouped db p]
      else map (\<lambda>j. grouped db p @ [(''jobGroupInfo'', VObj (present ''job'' (get_field ''job'' j)))])
             (job_matches db p))"
proof -
  have g: "get_field ''jobGroupInfo'' (grouped db p @ [(''jobGroupInfo'', x)]) = Some x" for x
    by (simp add: get_field_def grouped_def first_value_def)
  have d: "del_field ''jobGroupInfo'' (grouped db p @ [(''jobGroupInfo'', x)]) = grouped db p" for x
    by (simp add: del_field_def grouped_def first_value_def)
  have s: "set_field ''jobGroupInfo'' y (grouped db p @ [(''jobGroupInfo'', x)])
             = grouped db p @ [(''jobGroupInfo'', y)]" for x y
    by (simp add: set_field_def grouped_def first_value_def)
  show ?thesis
    by (cases "job_matches db p") (simp_all add: unwind_doc_def with_job_def g d s)
qed

lemma project_unmatched:
  "project_doc [] [(''_id'', Include), (''title'', Include), (''contents'', Include),
              (''view'', Include), (''images'', Include), (''tags'', Include),
              (''techStack'', Include), (''createdAt'', Include),
              (''thumbnailImage'', Include), (''userID'', Include),
              (''likeCount'', Include),
              (''jobGroup'', Computed (EField [''jobGroupInfo'', ''job'']))] (grouped db p)
     = Inr (view_base db p)"
  by (simp add: project_doc_def grouped_def view_base_def first_value_def get_field_def sub_field_def)

lemma project_matched:
  "project_doc [] [(''_id'', Include), (''title'', Include), (''contents'', Include),
              (''view'', Include), (''images'', Include), (''tags'', Include),
              (''techStack'', Include), (''createdAt'', Include),
              (''thumbnailImage'', Include), (''userID'', Include),
              (''likeCount'', Include),
              (''jobGroup'', Computed (EField [''jobGroupInfo'', ''job'']))]
        (grouped db p @ [(''jobGroupInfo'', VObj (present ''job'' lab))])
     = Inr (view_base db p @ present ''jobGroup'' lab)"
  by (cases lab)
     (simp_all add: project_doc_def grouped_def view_base_def first_value_def get_field_def
        sub_field_def present_def)

lemma run_job:
  "run sat db [] [jobgroups_lookup, jobGroupInfo_unwind, final_project] (map (grouped db) ds)
     = Inr (concat (map (view_rows db) ds))"
proof -
  have a: "exec_stage sat db [] jobgroups_lookup (map (grouped db) ds) = Inr (map (with_job db) ds)"
    unfolding jobgroups_lookup_def exec_stage.simps map_map o_def
    by (rule collect_map_Inr) (rule lookup_job)
  have b: "exec_stage sat db [] jobGroupInfo_unwind (map (with_job db) ds)
             = Inr (concat (map (\<lambda>p. unwind_doc ''jobGroupInfo'' True (with_job db p)) ds))"
    by (simp add: jobGroupInfo_unwind_def o_def)
  have one: "collect (map (project_doc [] [(''_id'', Include), (''title'', Include), (''contents'', Include),
              (''view'', Include), (''images'', Include), (''tags'', Include),
              (''techStack'', Include), (''createdAt'', Include),
              (''thumbnailImage'', Include), (''userID'', Include),
              (''likeCount'', Include),
              (''jobGroup'', Computed (EField [''jobGroupInfo'', ''job'']))])
             (unwind_doc ''jobGroupInfo'' True (with_job db p))) = Inr (view_rows db p)" for p
  proof (cases "job_matches db p = []")
    case True
    then show ?thesis
      by (simp add: unwind_job project_unmatched view_rows_def job_labels_def present_def)
  next
    case False
    then show ?thesis
      by (simp add: unwind_job view_rows_def job_labels_def o_def project_matched
          collect_map_Inr [where g = "\<lambda>j. view_base db p @ present ''jobGroup'' (get_field ''job'' j)"])
  qed
  have c: "exec_stage sat db [] final_project
             (concat (map (\<lambda>p. unwind_doc ''jobGroupInfo'' True (with_job db p)) ds))
           = Inr (concat (map (view_rows db) ds))"
    unfolding final_project_def exec_stage.simps
    by (rule collect_map_concat) (rule one)
  show ?thesis by (simp only: run.simps a b c sum.case)
qed

lemma run_append:
  "run sat db env (ss @ ts) ds =
     (case run sat db env ss ds of Inl err \<Rightarrow> Inl err | Inr ds' \<Rightarrow> run sat db env ts ds')"
  by (induction ss arbitrary: ds) (simp_all split: sum.splits)

lemma run_literal:
  assumes "distinct (map pid ps)"
  shows "run sat db [] (pipeline_literal q) ps = Inr (concat (map (view_rows db) (filter (sat q) ps)))"
proof -
  let ?ds = "filter (sat q) ps"
  have d: "distinct (map (\<lambda>p. or_null (get_field ''_id'' p)) ?ds)"
    using assms by (simp add: pid_def [abs_def] distinct_map_filter)
  have split: "pipeline_literal q =
      [matchStage_stage q] @ [likes_lookup, likeCount_addFields]
      @ [techStack_unwind, techstacks_lookup, techStackInfo_unwind]
      @ [portfolio_group] @ [jobgroups_lookup, jobGroupInfo_unwind, final_project]"
    by (simp add: pipeline_literal_def)
  have a: "run sat db [] [matchStage_stage q] ps = Inr ?ds"
    by (simp add: matchStage_stage_def)
  have g: "run sat db [] [portfolio_group] (concat (map (expanded db) ?ds)) = Inr (map (grouped db) ?ds)"
    by (simp only: run.simps run_group [OF d] sum.case)
  show ?thesis
    unfolding split
    by (simp only: run_append a run_likes run_expand g run_job sum.case)
qed

lemma mset_insert_doc: "mset (insert_doc ks d xs) = add_mset d (mset xs)"
  by (induction xs) simp_all

lemma mset_sort_docs: "mset (sort_docs ks ds) = mset ds"
  by (induction ds) (simp_all add: sort_docs_def mset_insert_doc)

lemma set_sort_docs: "set (sort_docs ks ds) = set ds"
  by (metis mset_sort_docs set_mset_mset)

lemma sort_keys_ok: "list_all (\<lambda>(f, dir). dir = 1 \<or> dir = - 1) (sort_keys opts)"
  by (simp add: sort_keys_def)

lemma run_tail:
  "run sat db [] ([if sort_of opts = VStr ''popular'' then popular_sort else latest_sort]
     @ (if 0 < skip_of opts then [Skip (skip_of opts)] else [])
     @ (if 0 < limit_of opts then [Limit (limit_of opts)] else [])) rows
   = Inr (paged opts (sort_docs (sort_keys opts) rows))"
  by (simp add: popular_sort_def latest_sort_def sort_keys_def paged_def Let_def)

lemma aggregate_views:
  assumes "distinct (map pid ps)"
  shows "aggregate sat db (createPortfolioPipeline m opts) ps
           = Inr (paged opts (sort_docs (sort_keys opts) (views sat db m ps)))"
  unfolding aggregate_def pipeline_shape views_def
  by (simp only: run_append [of _ _ _ "pipeline_literal _"] run_literal [OF assms] run_tail sum.case)

lemma view_base_fields:
  "get_field ''_id'' (view_base db p @ x) = Some (pid p)"
  "get_field ''techStack'' (view_base db p @ x) = Some (VArr (techStack_entries db p))"
  "get_field ''likeCount'' (view_base db p @ x) = Some (VNum (like_count db p))"
  "get_field ''createdAt'' (view_base db p @ x) = Some (or_null (get_field ''createdAt'' p))"
  by (simp_all add: view_base_def first_value_def get_field_def pid_def)


lemma view_rows_fields:
  assumes "r \<in> set (view_rows db p)"
  shows "get_field ''_id'' r = Some (pid p)"
    and "get_field ''techStack'' r = Some (VArr (techStack_entries db p))"
    and "get_field ''likeCount'' r = Some (VNum (like_count db p))"
    and "get_field ''createdAt'' r = Some (or_null (get_field ''createdAt'' p))"
  using assms by (auto simp add: view_rows_def view_base_fields)

lemma filter_key_le1: "distinct (map f xs) \<Longrightarrow> length (filter (\<lambda>x. f x = c) xs) \<le> 1"
proof (induction xs)
  case Nil
  then show ?case by simp
next
  case (Cons x xs)
  show ?case
  proof (cases "f x = c")
    case True
    then have "c \<notin> f ` set xs" using Cons.prems by auto
    then have "filter (\<lambda>x. f x = c) xs = []" by (auto simp add: filter_empty_conv)
    then show ?thesis using True by simp
  next
    case False
    then show ?thesis using Cons by simp
  qed
qed

lemma view_rows_single:
  assumes "unique_job_ids db"
  shows "view_rows db p = [the_view db p]"
proof -
  have "length (job_matches db p) \<le> 1"
    using assms unfolding job_matches_def unique_job_ids_def by (rule filter_key_le1)
  then consider "job_matches db p = []" | j where "job_matches db p = [j]"
    by (cases "job_matches db p") (auto simp add: le_Suc_eq)
  then show ?thesis
    by cases (simp_all add: view_rows_def job_labels_def the_view_def job_label_def)
qed

lemma views_single:
  assumes "unique_job_ids db"
  shows "views sat db m ps = map (the_view db) (filter (sat (default_to (VObj []) m)) ps)"
proof -
  have "concat (map (view_rows db) xs) = map (the_view db) xs" for xs
    by (induction xs) (simp_all add: view_rows_single [OF assms])
  then show ?thesis by (simp add: views_def)
qed

lemma the_view_id: "get_field ''_id'' (the_view db p) = Some (pid p)"
  by (simp add: the_view_def view_base_fields)

lemma filter_views:
  assumes "distinct (map pid ps)" and "p \<in> set ps" and "P p"
  shows "filter (\<lambda>r. get_field ''_id'' r = Some (pid p)) (map (the_view db) (filter P ps))
           = [the_view db p]"
  using assms
proof (induction ps)
  case Nil
  then show ?case by simp
next
  case (Cons a ps)
  show ?case
  proof (cases "a = p")
    case True
    have "pid p \<notin> pid ` set ps" using Cons.prems(1) True by simp
    then have "\<And>x. x \<in> set ps \<Longrightarrow> pid x \<noteq> pid p" by (metis imageI)
    then have "filter (\<lambda>r. get_field ''_id'' r = Some (pid p)) (map (the_view db) (filter P ps)) = []"
      by (simp add: filter_empty_conv the_view_id)
    then show ?thesis using True Cons.prems(3) by (simp add: the_view_id)
  next
    case False
    then have "p \<in> set ps" using Cons.prems(2) by simp
    moreover have "pid a \<noteq> pid p" using Cons.prems(1) calculation by auto
    ultimately show ?thesis using Cons by (simp add: the_view_id)
  qed
qed

lemma filter_sort_single:
  assumes "filter P rows = [r]"
  shows "filter P (sort_docs ks rows) = [r]"
proof -
  have "mset (filter P (sort_docs ks rows)) = mset (filter P rows)"
    by (simp add: mset_sort_docs)
  also have "\<dots> = {#r#}" by (simp only: assms mset.simps)
  finally show ?thesis by (simp only: mset_single_iff)
qed

lemma length_sort_docs: "length (sort_docs ks ds) = length ds"
  by (metis mset_sort_docs size_mset)

lemma paged_untruncated:
  assumes "untruncated opts ps" and "length rows \<le> length ps"
  shows "paged opts rows = rows"
  using assms by (auto simp add: paged_def untruncated_def Let_def)

lemma set_paged: "set (paged opts rows) \<subseteq> set rows"
  by (auto simp add: paged_def Let_def dest: in_set_takeD in_set_dropD)

lemma aggregate_row:
  assumes ids: "distinct (map pid ps)"
    and jobs: "unique_job_ids db"
    and p: "p \<in> set ps" "accepts sat m p"
    and un: "untruncated opts ps"
  shows "\<exists>rows. aggregate sat db (createPortfolioPipeline m opts) ps = Inr rows
           \<and> filter (\<lambda>r. get_field ''_id'' r = Some (pid p)) rows = [the_view db p]"
proof -
  let ?vs = "map (the_view db) (filter (sat (default_to (VObj []) m)) ps)"
  let ?sorted = "sort_docs (sort_keys opts) ?vs"
  have len: "length ?sorted \<le> length ps" by (simp add: length_sort_docs)
  have res: "aggregate sat db (createPortfolioPipeline m opts) ps = Inr ?sorted"
    by (simp add: aggregate_views [OF ids] views_single [OF jobs] paged_untruncated [OF un len])
  have "filter (\<lambda>r. get_field ''_id'' r = Some (pid p)) ?sorted = [the_view db p]"
    by (rule filter_sort_single)
       (rule filter_views [of ps p "sat (default_to (VObj []) m)", OF ids p [unfolded accepts_def]])
  with res show ?thesis by blast
qed

lemma aggregate_rows_from:
  assumes ids: "distinct (map pid ps)"
  shows "\<exists>rows. aggregate sat db (createPortfolioPipeline m opts) ps = Inr rows
           \<and> (\<forall>r\<in>set rows. \<exists>p\<in>set ps. sat (default_to (VObj []) m) p \<and> r \<in> set (view_rows db p))"
proof -
  let ?rows = "paged opts (sort_docs (sort_keys opts) (views sat db m ps))"
  have "set ?rows \<subseteq> set (views sat db m ps)"
    using set_paged [of opts "sort_docs (sort_keys opts) (views sat db m ps)"]
    by (simp add: set_sort_docs)
  then have "\<forall>r\<in>set ?rows. \<exists>p\<in>set ps. sat (default_to (VObj []) m) p \<and> r \<in> set (view_rows db p)"
    by (auto simp add: views_def)
  then show ?thesis using aggregate_views [OF ids] by blast
qed

section \<open>Properties of the rows\<close>

lemmas example_defs = sat_all_def go_definition_def first_like_def second_like_def
  backend_group_def rust_row_def example_store_def example_portfolio_def
  bare_portfolio_def go_entry_def example_view_def

lemma example_ids: "distinct (map pid [example_portfolio, bare_portfolio])"
  by (simp add: pid_def example_defs get_field_def or_null_def)

lemma example_jobs: "unique_job_ids example_store"
  by (simp add: unique_job_ids_def example_defs)

lemma example_untruncated: "untruncated None [example_portfolio, bare_portfolio]"
  by (simp add: untruncated_def options_defaults)

lemma pid_examples: "pid example_portfolio = VNum 1" "pid bare_portfolio = VNum 2"
  by (simp_all add: pid_def example_defs get_field_def or_null_def)

lemma example_accepts: "accepts sat_all m p"
  by (simp add: accepts_def sat_all_def)



lemma the_view_likeCount: "get_field ''likeCount'' (the_view db p) = Some (VNum (like_count db p))"
  by (simp add: the_view_def view_base_fields)

















text \<open>
  In the theorems below the portfolios have distinct identifiers and so have the job
  groups, as the store guarantees; a statement about the one row of a portfolio is made
  for a portfolio that passes the filter and for options that cut no row off.
\<close>






text \<open>
  C3. Every row of the result belongs to a portfolio, and its \<open>likeCount\<close> is the
  number of Like records whose \<open>portfolioID\<close> equals that portfolio's identifier: a
  number, 0 when there is none. When no row is cut off, every portfolio that passes the
  filter has exactly one row, with that count, whatever its skills are. The likes join
  and the count are stages 1 and 2, before the expansion of \<open>techStack\<close>, stage 3.
\<close>

theorem likeCount_exact:
  assumes "distinct (map pid ps)" and "unique_job_ids db"
  shows "\<exists>rows. aggregate sat db (createPortfolioPipeline m opts) ps = Inr rows
           \<and> (\<forall>r\<in>set rows. \<exists>p\<in>set ps.
                 get_field ''_id'' r = Some (pid p)
                 \<and> get_field ''likeCount'' r =
                     Some (VNum (int (length (filter
                       (\<lambda>l. or_null (get_field ''portfolioID'' l) = pid p) (db ''likes''))))))
           \<and> (untruncated opts ps \<longrightarrow>
                (\<forall>p\<in>set ps. accepts sat m p \<longrightarrow>
                   (\<exists>r. filter (\<lambda>r. get_field ''_id'' r = Some (pid p)) rows = [r]
                      \<and> get_field ''likeCount'' r =
                          Some (VNum (int (length (filter
                            (\<lambda>l. or_null (get_field ''portfolioID'' l) = pid p) (db ''likes''))))))))
           \<and> createPortfolioPipeline m opts ! 1 = likes_lookup
           \<and> createPortfolioPipeline m opts ! 2 = likeCount_addFields
           \<and> createPortfolioPipeline m opts ! 3 = techStack_unwind"
proof -
  have lc: "like_count db p = int (length (filter
              (\<lambda>l. or_null (get_field ''portfolioID'' l) = pid p) (db ''likes'')))" for p
    by (simp add: like_count_def liked_def pid_def)
  obtain rows where rows: "aggregate sat db (createPortfolioPipeline m opts) ps = Inr rows"
    and origin: "\<forall>r\<in>set rows. \<exists>p\<in>set ps. sat (default_to (VObj []) m) p \<and> r \<in> set (view_rows db p)"
    using aggregate_rows_from [OF assms(1)] by blast
  have a: "\<forall>r\<in>set rows. \<exists>p\<in>set ps.
                 get_field ''_id'' r = Some (pid p)
                 \<and> get_field ''likeCount'' r =
                     Some (VNum (int (length (filter
                       (\<lambda>l. or_null (get_field ''portfolioID'' l) = pid p) (db ''likes'')))))"
  proof
    fix r assume "r \<in> set rows"
    with origin obtain p where p: "p \<in> set ps" "r \<in> set (view_rows db p)" by blast
    have "get_field ''_id'' r = Some (pid p)" "get_field ''likeCount'' r = Some (VNum (like_count db p))"
      using view_rows_fields [OF p(2)] by simp_all
    with p(1) show "\<exists>p\<in>set ps.
                 get_field ''_id'' r = Some (pid p)
                 \<and> get_field ''likeCount'' r =
                     Some (VNum (int (length (filter
                       (\<lambda>l. or_null (get_field ''portfolioID'' l) = pid p) (db ''likes'')))))"
      by (auto simp add: lc)
  qed
  have b: "untruncated opts ps \<longrightarrow>
                (\<forall>p\<in>set ps. accepts sat m p \<longrightarrow>
                   (\<exists>r. filter (\<lambda>r. get_field ''_id'' r = Some (pid p)) rows = [r]
                      \<and> get_field ''likeCount'' r =
                          Some (VNum (int (length (filter
                            (\<lambda>l. or_null (get_field ''portfolioID'' l) = pid p) (db ''likes'')))))))"
  proof (intro impI ballI)
    fix p assume un: "untruncated opts ps" and p: "p \<in> set ps" "accepts sat m p"
    from aggregate_row [OF assms p un] rows
    have "filter (\<lambda>r. get_field ''_id'' r = Some (pid p)) rows = [the_view db p]" by simp
    then show "\<exists>r. filter (\<lambda>r. get_field ''_id'' r = Some (pid p)) rows = [r]
                      \<and> get_field ''likeCount'' r =
                          Some (VNum (int (length (filter
                            (\<lambda>l. or_null (get_field ''portfolioID'' l) = pid p) (db ''likes'')))))"
      by (simp add: the_view_likeCount lc)
  qed
  have c: "createPortfolioPipeline m opts ! 1 = likes_lookup"
    "createPortfolioPipeline m opts ! 2 = likeCount_addFields"
    "createPortfolioPipeline m opts ! 3 = techStack_unwind"
    by (simp_all add: pipeline_shape pipeline_literal_def)
  from rows a b c show ?thesis by blast
qed

theorem likeCount_exact_witness:
  "\<exists>rows. aggregate sat_all example_store (createPortfolioPipeline None None)
             [example_portfolio, bare_portfolio] = Inr rows
     \<and> (\<exists>r. filter (\<lambda>r. get_field ''_id'' r = Some (VNum 1)) rows = [r]
            \<and> get_field ''likeCount'' r = Some (VNum 2))
     \<and> (\<exists>r. filter (\<lambda>r. get_field ''_id'' r = Some (VNum 2)) rows = [r]
            \<and> get_field ''likeCount'' r = Some (VNum 0))"
proof -
  have l: "filter (\<lambda>l. or_null (get_field ''portfolioID'' l) = VNum 1) (example_store ''likes'')
             = example_store ''likes''"
    "filter (\<lambda>l. or_null (get_field ''portfolioID'' l) = VNum 2) (example_store ''likes'') = []"
    "length (example_store ''likes'') = 2"
    by (simp_all add: example_defs get_field_def or_null_def)
  show ?thesis
    using likeCount_exact [OF example_ids example_jobs, of sat_all None None]
    by (simp add: example_untruncated example_accepts pid_examples l) blast
qed







end
